theory Spec2Isabelle
  imports Complex_Main "HOL-Library.Char_ord" "HOL-Library.List_Lexorder"
begin

section \<open>Data model (core/database.py, core/config.py)\<close>

text \<open>
  Dates are proleptic Gregorian ordinals (\<^verbatim>\<open>date.toordinal()\<close>: day 1 is Monday
  0001-01-01). A time of day is the number of minutes after midnight; the source
  carries it as the zero-padded string that \<^verbatim>\<open>strftime("%H:%M")\<close> produces and
  compares these strings, which orders them as the minute counts are ordered (lemma
  \<open>strftime_HM_less\<close> below). A datetime is a date with a time of day: every datetime
  the booking routes compare comes from \<^verbatim>\<open>strptime(..., "%Y-%m-%d %H:%M")\<close>, and
  \<^verbatim>\<open>datetime.now()\<close> is read truncated to the minute, which leaves
  \<^verbatim>\<open>appointment_datetime <= datetime.now()\<close> unchanged.
\<close>

type_synonym date = nat
type_synonym time_of_day = nat
type_synonym datetime = "date \<times> time_of_day"

record Service =
  s_id :: nat
  s_name :: string
  s_description :: string
  s_duration :: nat
  s_price :: real
  s_category :: string
  s_is_active :: bool

text \<open>
  A value of Python's \<^verbatim>\<open>date\<close> or \<^verbatim>\<open>datetime\<close>, as the \<^verbatim>\<open>appointment_date\<close>
  column meets them: the route writes the column with the appointment's full datetime
  (\<^verbatim>\<open>appointment_date=appointment_datetime\<close>) and queries it with a bare date
  (\<^verbatim>\<open>appointment_datetime.date()\<close>, \<^verbatim>\<open>target_date\<close>). A datetime is not equal to a
  date, whatever its time of day.
\<close>

datatype moment = Date date | DateTime date time_of_day

text \<open>The \<^verbatim>\<open>bookings\<close> table. It has no column for a confirmation code.\<close>

record Booking =
  b_id :: nat
  client_name :: string
  client_email :: string
  client_phone :: string
  service_name :: string
  service_duration :: nat
  appointment_date :: moment
  appointment_time :: time_of_day
  total_price :: real
  status :: string
  special_requests :: "string option"
  google_calendar_event_id :: "string option"
  created_at :: datetime
  updated_at :: datetime

record Database =
  services :: "Service list"
  bookings :: "Booking list"

record Hours =
  h_open :: time_of_day
  h_close :: time_of_day

record Settings =
  business_hours :: "string \<rightharpoonup> Hours"
  buffer_time :: nat

definition default_business_hours :: "string \<rightharpoonup> Hours" where
  "default_business_hours =
     [''monday'' \<mapsto> \<lparr>h_open = 540, h_close = 1200\<rparr>,
      ''tuesday'' \<mapsto> \<lparr>h_open = 540, h_close = 1200\<rparr>,
      ''wednesday'' \<mapsto> \<lparr>h_open = 540, h_close = 1200\<rparr>,
      ''thursday'' \<mapsto> \<lparr>h_open = 540, h_close = 1200\<rparr>,
      ''friday'' \<mapsto> \<lparr>h_open = 540, h_close = 1200\<rparr>,
      ''saturday'' \<mapsto> \<lparr>h_open = 600, h_close = 1080\<rparr>,
      ''sunday'' \<mapsto> \<lparr>h_open = 600, h_close = 960\<rparr>]"

definition settings :: Settings where
  "settings = \<lparr>business_hours = default_business_hours, buffer_time = 15\<rparr>"

section \<open>Dates and times (the datetime calls of api/routes/booking.py)\<close>

text \<open>\<^verbatim>\<open>strftime("%A").lower()\<close>: the weekday is \<^verbatim>\<open>(toordinal() + 6) % 7\<close>, Monday first.\<close>

definition day_of_week :: "date \<Rightarrow> string" where
  "day_of_week d =
     [''monday'', ''tuesday'', ''wednesday'', ''thursday'', ''friday'', ''saturday'', ''sunday'']
       ! ((d + 6) mod 7)"

text \<open>\<^verbatim>\<open>a <= b\<close> on datetimes.\<close>

definition datetime_le :: "datetime \<Rightarrow> datetime \<Rightarrow> bool" where
  "datetime_le a b = (fst a < fst b \<or> (fst a = fst b \<and> snd a \<le> snd b))"

text \<open>\<^verbatim>\<open>(dt + timedelta(minutes=m)).strftime("%H:%M")\<close> and
  \<^verbatim>\<open>(datetime.combine(datetime.min, t) + timedelta(minutes=m)).time()\<close>: the time of
  day wraps at midnight.\<close>

definition plus_minutes :: "time_of_day \<Rightarrow> nat \<Rightarrow> time_of_day" where
  "plus_minutes t m = (t + m) mod 1440"

text \<open>\<^verbatim>\<open>strftime("%H:%M")\<close> of a time of day.\<close>

definition digit :: "nat \<Rightarrow> char" where
  "digit n = ''0123456789'' ! n"

definition strftime_HM :: "nat \<Rightarrow> string" where
  "strftime_HM t =
     [digit (t div 60 div 10), digit (t div 60 mod 10), CHR '':'',
      digit (t mod 60 div 10), digit (t mod 60 mod 10)]"

text \<open>SQL \<^verbatim>\<open>x BETWEEN lo AND hi\<close>: both ends included.\<close>

definition between :: "time_of_day \<Rightarrow> time_of_day \<Rightarrow> time_of_day \<Rightarrow> bool" where
  "between x lo hi = (lo \<le> x \<and> x \<le> hi)"

text \<open>\<^verbatim>\<open>str.upper()\<close> on an ASCII character.\<close>

definition upper_char :: "char \<Rightarrow> char" where
  "upper_char c =
     (case map_of (zip ''abcdefghijklmnopqrstuvwxyz'' ''ABCDEFGHIJKLMNOPQRSTUVWXYZ'') c of
        None \<Rightarrow> c
      | Some u \<Rightarrow> u)"

definition upper :: "string \<Rightarrow> string" where
  "upper s = map upper_char s"

section \<open>Booking creation (create_booking)\<close>

text \<open>One constructor for each \<^verbatim>\<open>raise HTTPException\<close> of the booking routes.\<close>

datatype error =
    Service_not_found
  | Invalid_format
  | Not_in_future
  | Closed_on_day
  | Outside_open_hours
  | Slot_already_booked
  | Booking_not_found

fun status_code :: "error \<Rightarrow> nat" where
  "status_code Service_not_found = 404"
| "status_code Invalid_format = 400"
| "status_code Not_in_future = 400"
| "status_code Closed_on_day = 400"
| "status_code Outside_open_hours = 400"
| "status_code Slot_already_booked = 409"
| "status_code Booking_not_found = 404"

text \<open>
  The request body. The two strings \<^verbatim>\<open>appointment_date\<close> and \<^verbatim>\<open>appointment_time\<close>
  are carried as the result of \<^verbatim>\<open>datetime.strptime\<close> on them: \<open>None\<close> is its
  \<^verbatim>\<open>ValueError\<close>.
\<close>

record BookingRequest =
  rq_client_name :: string
  rq_client_email :: string
  rq_client_phone :: string
  rq_service_name :: string
  rq_appointment :: "datetime option"
  rq_special_requests :: "string option"

record BookingResponse =
  r_booking_id :: nat
  r_confirmation_code :: string
  r_appointment_datetime :: datetime
  r_service_name :: string
  r_total_price :: real
  r_status :: string

text \<open>
  What a call reads from outside the database: the clocks, the string of the fresh
  \<^verbatim>\<open>uuid.uuid4()\<close>, and what \<^verbatim>\<open>add_to_calendar\<close> returns (\<open>None\<close> also when it
  raises: the route catches the exception and leaves the column empty).
\<close>

record World =
  now :: datetime
  utcnow :: datetime
  uuid4 :: string
  calendar_event :: "string option"
  utcnow_sync :: datetime

text \<open>\<^verbatim>\<open>db.query(Service).filter(Service.name == n, Service.is_active == True).first()\<close>\<close>

definition active_service :: "Database \<Rightarrow> string \<Rightarrow> Service option" where
  "active_service db n = find (\<lambda>s. s_name s = n \<and> s_is_active s) (services db)"

text \<open>
  \<^verbatim>\<open>Booking.appointment_date == d\<close> for a bare date \<open>d\<close>: the stored value is compared
  with the date itself. A row written by \<^verbatim>\<open>create_booking\<close> holds a datetime and is
  not selected; only a row that holds the bare date is.
\<close>

definition on_date :: "date \<Rightarrow> Booking \<Rightarrow> bool" where
  "on_date d b = (appointment_date b = Date d)"

text \<open>The filter of the conflict query.\<close>

definition conflicting :: "date \<Rightarrow> time_of_day \<Rightarrow> time_of_day \<Rightarrow> Booking \<Rightarrow> bool" where
  "conflicting d start_time end_time b =
     (on_date d b \<and> status b = ''confirmed'' \<and> between (appointment_time b) start_time end_time)"

text \<open>The integer primary key of the inserted row.\<close>

definition next_id :: "Booking list \<Rightarrow> nat" where
  "next_id bs = foldr max (map b_id bs) 0 + 1"

definition create_booking ::
  "Settings \<Rightarrow> World \<Rightarrow> Database \<Rightarrow> BookingRequest \<Rightarrow> error + (Database \<times> BookingResponse)" where
  "create_booking st w db booking_request =
     (case active_service db (rq_service_name booking_request) of
        None \<Rightarrow> Inl Service_not_found
      | Some service \<Rightarrow>
     (case rq_appointment booking_request of
        None \<Rightarrow> Inl Invalid_format
      | Some appointment_datetime \<Rightarrow>
          if datetime_le appointment_datetime (now w) then Inl Not_in_future
          else
     (case business_hours st (day_of_week (fst appointment_datetime)) of
        None \<Rightarrow> Inl Closed_on_day
      | Some hours \<Rightarrow>
          if snd appointment_datetime < h_open hours \<or> snd appointment_datetime > h_close hours
          then Inl Outside_open_hours
          else if list_ex (conflicting (fst appointment_datetime) (snd appointment_datetime)
                    (plus_minutes (snd appointment_datetime) (s_duration service))) (bookings db)
          then Inl Slot_already_booked
          else
            let confirmation_code = upper (take 8 (uuid4 w));
                booking = \<lparr>b_id = next_id (bookings db),
                  client_name = rq_client_name booking_request,
                  client_email = rq_client_email booking_request,
                  client_phone = rq_client_phone booking_request,
                  service_name = s_name service,
                  service_duration = s_duration service,
                  appointment_date =
                    DateTime (fst appointment_datetime) (snd appointment_datetime),
                  appointment_time = snd appointment_datetime,
                  total_price = s_price service,
                  status = ''confirmed'',
                  special_requests = rq_special_requests booking_request,
                  google_calendar_event_id = None,
                  created_at = utcnow w,
                  updated_at = utcnow w\<rparr>;
                booking = (case calendar_event w of
                    None \<Rightarrow> booking
                  | Some e \<Rightarrow> booking\<lparr>google_calendar_event_id := Some e,
                      updated_at := utcnow_sync w\<rparr>)
            in Inr (db\<lparr>bookings := bookings db @ [booking]\<rparr>,
                 \<lparr>r_booking_id = b_id booking,
                  r_confirmation_code = confirmation_code,
                  r_appointment_datetime = appointment_datetime,
                  r_service_name = s_name service,
                  r_total_price = s_price service,
                  r_status = status booking\<rparr>))))"

section \<open>Booking lookup (get_booking)\<close>

record BookingView =
  v_id :: nat
  v_client_name :: string
  v_client_email :: string
  v_service_name :: string
  v_appointment_date :: moment
  v_appointment_time :: time_of_day
  v_total_price :: real
  v_status :: string
  v_created_at :: datetime

definition get_booking :: "Database \<Rightarrow> nat \<Rightarrow> error + BookingView" where
  "get_booking db booking_id =
     (case find (\<lambda>b. b_id b = booking_id) (bookings db) of
        None \<Rightarrow> Inl Booking_not_found
      | Some booking \<Rightarrow>
          Inr \<lparr>v_id = b_id booking,
            v_client_name = client_name booking,
            v_client_email = client_email booking,
            v_service_name = service_name booking,
            v_appointment_date = appointment_date booking,
            v_appointment_time = appointment_time booking,
            v_total_price = total_price booking,
            v_status = status booking,
            v_created_at = created_at booking\<rparr>)"

section \<open>Slot listing (get_available_slots)\<close>

text \<open>
  The inner loop over one booking: every time from the booking's start, in steps of 15
  minutes, is added to \<^verbatim>\<open>booked_times\<close> while it is before the booking's end. The
  step wraps at midnight, so the loop need not end: not returning is \<open>None\<close>.
\<close>

partial_function (option) add_booked_times ::
  "time_of_day \<Rightarrow> time_of_day \<Rightarrow> time_of_day set \<Rightarrow> time_of_day set option" where
  "add_booked_times current_time booking_end booked_times =
     (if current_time < booking_end
      then add_booked_times (plus_minutes current_time 15) booking_end
             (insert current_time booked_times)
      else Some booked_times)"

text \<open>\<^verbatim>\<open>for booking in existing_bookings\<close>\<close>

fun collect_booked_times :: "Booking list \<Rightarrow> time_of_day set \<Rightarrow> time_of_day set option" where
  "collect_booked_times [] booked_times = Some booked_times"
| "collect_booked_times (booking # rest) booked_times =
     (case add_booked_times (appointment_time booking)
             (plus_minutes (appointment_time booking) (service_duration booking)) booked_times of
        None \<Rightarrow> None
      | Some booked_times' \<Rightarrow> collect_booked_times rest booked_times')"

text \<open>The availability check of one candidate: \<^verbatim>\<open>while check_time < slot_end\<close>, with
  its \<^verbatim>\<open>break\<close>. The result is \<^verbatim>\<open>is_available\<close>.\<close>

partial_function (option) check_slot ::
  "time_of_day \<Rightarrow> time_of_day \<Rightarrow> time_of_day set \<Rightarrow> bool option" where
  "check_slot check_time slot_end booked_times =
     (if check_time < slot_end
      then if check_time \<in> booked_times then Some False
           else check_slot (plus_minutes check_time 15) slot_end booked_times
      else Some True)"

text \<open>The outer loop: \<^verbatim>\<open>while current_time <= end_time\<close>, stepping by
  \<^verbatim>\<open>settings.buffer_time + 15\<close> minutes.\<close>

partial_function (option) generate_slots ::
  "time_of_day \<Rightarrow> time_of_day \<Rightarrow> nat \<Rightarrow> nat \<Rightarrow> time_of_day set \<Rightarrow> time_of_day list
     \<Rightarrow> time_of_day list option" where
  "generate_slots current_time end_time duration step booked_times available_slots =
     (if current_time \<le> end_time
      then
        if plus_minutes current_time duration \<le> end_time
        then
          (case check_slot current_time (plus_minutes current_time duration) booked_times of
             None \<Rightarrow> None
           | Some is_available \<Rightarrow>
               generate_slots (plus_minutes current_time step) end_time duration step booked_times
                 (if is_available then available_slots @ [current_time] else available_slots))
        else generate_slots (plus_minutes current_time step) end_time duration step booked_times
               available_slots
      else Some available_slots)"

text \<open>
  The route. The date string is carried as the result of \<^verbatim>\<open>strptime\<close> on it (\<open>None\<close>
  is its \<^verbatim>\<open>ValueError\<close>). The outer \<open>option\<close> is \<open>None\<close> when a loop does not end.
\<close>

definition get_available_slots ::
  "Settings \<Rightarrow> Database \<Rightarrow> date option \<Rightarrow> string \<Rightarrow> (error + time_of_day list) option" where
  "get_available_slots st db date name =
     (case active_service db name of
        None \<Rightarrow> Some (Inl Service_not_found)
      | Some service \<Rightarrow>
     (case date of
        None \<Rightarrow> Some (Inl Invalid_format)
      | Some target_date \<Rightarrow>
     (case business_hours st (day_of_week target_date) of
        None \<Rightarrow> Some (Inr [])
      | Some hours \<Rightarrow>
     (case collect_booked_times
             (filter (\<lambda>b. on_date target_date b \<and> status b = ''confirmed'') (bookings db)) {} of
        None \<Rightarrow> None
      | Some booked_times \<Rightarrow>
          map_option Inr
            (generate_slots (h_open hours) (h_close hours) (s_duration service)
               (buffer_time st + 15) booked_times [])))))"

section \<open>Sequences of requests\<close>

text \<open>Requests handled one after the other: a rejected request leaves the database as it is.\<close>

fun create_bookings :: "Settings \<Rightarrow> Database \<Rightarrow> (World \<times> BookingRequest) list \<Rightarrow> Database" where
  "create_bookings st db [] = db"
| "create_bookings st db ((w, rq) # rest) =
     (case create_booking st w db rq of
        Inl e \<Rightarrow> create_bookings st db rest
      | Inr (db', r) \<Rightarrow> create_bookings st db' rest)"

section \<open>Notions the properties are stated with\<close>

text \<open>The interval \<open>[start, start + duration)\<close> of a booking, and the half-open overlap
  test \<open>a.start < b.end \<and> b.start < a.end\<close>.\<close>

definition interval :: "Booking \<Rightarrow> nat \<times> nat" where
  "interval b = (appointment_time b, appointment_time b + service_duration b)"

definition overlap :: "nat \<times> nat \<Rightarrow> nat \<times> nat \<Rightarrow> bool" where
  "overlap a b = (fst a < snd b \<and> fst b < snd a)"

text \<open>A row whose \<^verbatim>\<open>appointment_date\<close> holds a datetime, as every row the route writes.\<close>

definition holds_datetime :: "Booking \<Rightarrow> bool" where
  "holds_datetime b = (case appointment_date b of Date d \<Rightarrow> False | DateTime d t \<Rightarrow> True)"

text \<open>The first eight characters of \<^verbatim>\<open>str(uuid.uuid4())\<close> are lower-case hexadecimal
  digits; the ninth is the first hyphen.\<close>

definition hex_digit :: "char \<Rightarrow> bool" where
  "hex_digit c = (c \<in> set ''0123456789abcdef'')"

definition uuid_prefix_ok :: "string \<Rightarrow> bool" where
  "uuid_prefix_ok u = (length u = 36 \<and> list_all hex_digit (take 8 u))"

definition alphanumeric :: "char \<Rightarrow> bool" where
  "alphanumeric c =
     (c \<in> set ''0123456789ABCDEFGHIJKLMNOPQRSTUVWXYZabcdefghijklmnopqrstuvwxyz'')"

text \<open>The times \<open>t\<close>, \<open>t + 15\<close>, \<open>t + 30\<close>, ... before \<open>e\<close>: what the two inner loops of the
  slot listing visit when they do not wrap at midnight.\<close>

definition grid_points :: "nat \<Rightarrow> nat \<Rightarrow> nat set" where
  "grid_points t e = {x. x < e \<and> (\<exists>k. x = t + 15 * k)}"

text \<open>The candidate start times of the outer loop when it does not wrap at midnight:
  \<open>t\<close>, \<open>t + step\<close>, ... up to \<open>e\<close>.\<close>

function candidate_times :: "nat \<Rightarrow> nat \<Rightarrow> nat \<Rightarrow> nat list" where
  "candidate_times t e step =
     (if t \<le> e \<and> 0 < step then t # candidate_times (t + step) e step else [])"
  by pat_completeness auto
termination
  by (relation "measure (\<lambda>(t, e, step). e + 1 - t)") auto

declare candidate_times.simps [simp del]

section \<open>Concrete data\<close>

text \<open>The first default service of \<^verbatim>\<open>init_db\<close>; Monday 2030-01-07 (ordinal 741084);
  a clock well before it.\<close>

definition swedish_massage :: Service where
  "swedish_massage =
     \<lparr>s_id = 1, s_name = ''Swedish Massage'',
      s_description = ''Relaxing full-body massage using long, flowing strokes'',
      s_duration = 60, s_price = 80, s_category = ''massage'', s_is_active = True\<rparr>"

definition monday :: date where
  "monday = 741084"

definition world :: World where
  "world =
     \<lparr>now = (741000, 720), utcnow = (741000, 1020),
      uuid4 = ''3f2b8c1e-9a4d-4e7b-b1c2-5d6e7f8091a2'',
      calendar_event = None, utcnow_sync = (741000, 1020)\<rparr>"

definition request :: "time_of_day \<Rightarrow> BookingRequest" where
  "request t =
     \<lparr>rq_client_name = ''Ann Lee'', rq_client_email = ''ann@example.com'',
      rq_client_phone = ''+1 555 0100'', rq_service_name = ''Swedish Massage'',
      rq_appointment = Some (monday, t), rq_special_requests = None\<rparr>"

definition empty_ledger :: Database where
  "empty_ledger = \<lparr>services = [swedish_massage], bookings = []\<rparr>"

text \<open>The ledger after the route has admitted a request for 10:00 on that Monday.\<close>

definition ledger_after_admit :: Database where
  "ledger_after_admit = create_bookings settings empty_ledger [(world, request 600)]"

lemmas fixture_defs =
  swedish_massage_def monday_def world_def request_def empty_ledger_def
  ledger_after_admit_def settings_def default_business_hours_def

lemmas listing_defs =
  get_available_slots_def active_service_def day_of_week_def plus_minutes_def on_date_def

lemmas loop_simps = generate_slots.simps check_slot.simps add_booked_times.simps

lemmas route_defs =
  create_booking_def active_service_def day_of_week_def datetime_le_def plus_minutes_def
  conflicting_def on_date_def between_def next_id_def upper_def upper_char_def

section \<open>Auxiliary facts\<close>

lemma b_id_less_next_id: "b \<in> set bs \<Longrightarrow> b_id b < next_id bs"
  unfolding next_id_def by (induction bs) (auto simp: max_def)

lemma find_append_None: "find P xs = None \<Longrightarrow> find P (xs @ ys) = find P ys"
  by (induction xs) (auto split: if_splits)

lemma find_inserted:
  assumes "b_id b = next_id bs"
  shows "find (\<lambda>x. b_id x = next_id bs) (bs @ [b]) = Some b"
proof -
  have "\<forall>x\<in>set bs. b_id x \<noteq> next_id bs"
    using b_id_less_next_id by fastforce
  then have "find (\<lambda>x. b_id x = next_id bs) bs = None"
    by (simp add: find_None_iff)
  then show ?thesis
    using assms by (simp add: find_append_None)
qed

lemma hex_upper_alphanumeric: "hex_digit c \<Longrightarrow> alphanumeric (upper_char c)"
  by (auto simp: hex_digit_def alphanumeric_def upper_char_def)

lemma code_alphanumeric:
  "list_all hex_digit cs \<Longrightarrow> list_all alphanumeric (upper cs)"
  by (induction cs) (simp_all add: upper_def hex_upper_alphanumeric)

lemma create_booking_Inr:
  assumes "create_booking st w db rq = Inr (db', r)"
  obtains service dt hours where
    "active_service db (rq_service_name rq) = Some service"
    "rq_appointment rq = Some dt"
    "\<not> datetime_le dt (now w)"
    "business_hours st (day_of_week (fst dt)) = Some hours"
    "h_open hours \<le> snd dt" "snd dt \<le> h_close hours"
    "\<not> list_ex (conflicting (fst dt) (snd dt) (plus_minutes (snd dt) (s_duration service))) (bookings db)"
    "db' = db\<lparr>bookings := bookings db @
       [\<lparr>b_id = next_id (bookings db),
         client_name = rq_client_name rq,
         client_email = rq_client_email rq,
         client_phone = rq_client_phone rq,
         service_name = s_name service,
         service_duration = s_duration service,
         appointment_date = DateTime (fst dt) (snd dt),
         appointment_time = snd dt,
         total_price = s_price service,
         status = ''confirmed'',
         special_requests = rq_special_requests rq,
         google_calendar_event_id = calendar_event w,
         created_at = utcnow w,
         updated_at = (case calendar_event w of None \<Rightarrow> utcnow w | Some e \<Rightarrow> utcnow_sync w)\<rparr>]\<rparr>"
    "r = \<lparr>r_booking_id = next_id (bookings db),
          r_confirmation_code = upper (take 8 (uuid4 w)),
          r_appointment_datetime = dt,
          r_service_name = s_name service,
          r_total_price = s_price service,
          r_status = ''confirmed''\<rparr>"
  using assms unfolding create_booking_def
  by (auto simp: Let_def split: option.splits if_splits)


subsection \<open>Rows that hold a datetime\<close>

lemma datetime_row_not_selected: "holds_datetime b \<Longrightarrow> \<not> on_date d b"
  by (cases "appointment_date b") (simp_all add: holds_datetime_def on_date_def)

lemma no_conflict_found:
  "list_all holds_datetime bs \<Longrightarrow> \<not> list_ex (conflicting d start_time end_time) bs"
  by (auto simp: list_all_iff list_ex_iff conflicting_def datetime_row_not_selected)

lemma no_booking_selected:
  "list_all holds_datetime bs \<Longrightarrow>
     filter (\<lambda>b. on_date d b \<and> status b = ''confirmed'') bs = []"
  by (auto simp: list_all_iff filter_empty_conv datetime_row_not_selected)

lemma create_booking_holds_datetime:
  assumes "create_booking st w db rq = Inr (db', r)"
    and "list_all holds_datetime (bookings db)"
  shows "list_all holds_datetime (bookings db')"
  using assms(1) by (rule create_booking_Inr) (simp add: assms(2) holds_datetime_def)

lemma create_bookings_holds_datetime:
  "list_all holds_datetime (bookings db) \<Longrightarrow>
     list_all holds_datetime (bookings (create_bookings st db rqs))"
proof (induction rqs arbitrary: db)
  case Nil
  then show ?case by simp
next
  case (Cons x rqs)
  obtain w rq where x: "x = (w, rq)"
    by (cases x)
  show ?case
  proof (cases "create_booking st w db rq")
    case (Inl e)
    with Cons x show ?thesis by simp
  next
    case (Inr y)
    obtain db' r where y: "y = (db', r)"
      by (cases y)
    have "list_all holds_datetime (bookings db')"
      using Inr y Cons.prems by (auto intro: create_booking_holds_datetime)
    then show ?thesis
      using Cons.IH Inr x y by simp
  qed
qed

subsection \<open>Times of day as strings\<close>

lemma of_char_digit: "i < 10 \<Longrightarrow> of_char (digit i) = 48 + i"
proof -
  assume "i < 10"
  then have "i \<in> set [0..<10]"
    by simp
  then show ?thesis
    by (auto simp: upt_rec digit_def)
qed

lemma digit_less: "i < 10 \<Longrightarrow> j < 10 \<Longrightarrow> digit i < digit j \<longleftrightarrow> i < j"
  by (simp add: less_char_def of_char_digit)

lemma digit_eq:
  assumes "i < 10" and "j < 10"
  shows "digit i = digit j \<longleftrightarrow> i = j"
proof
  assume "digit i = digit j"
  then have "(of_char (digit i) :: nat) = of_char (digit j)"
    by (rule arg_cong)
  then show "i = j"
    by (simp only: of_char_digit [OF assms(1)] of_char_digit [OF assms(2)] add_left_cancel)
qed simp

lemma lex_10: "r < 10 \<Longrightarrow> s < 10 \<Longrightarrow>
    (A < B \<or> A = B \<and> r < s) \<longleftrightarrow> 10 * A + r < 10 * B + (s::nat)"
  by auto

lemma lex_60: "r < 60 \<Longrightarrow> s < 60 \<Longrightarrow>
    (A < B \<or> A = B \<and> r < s) \<longleftrightarrow> 60 * A + r < 60 * B + (s::nat)"
  by auto

lemma two_digits:
  "(a div 10 < b div 10 \<or> a div 10 = b div 10 \<and> a mod 10 < b mod 10) \<longleftrightarrow> a < (b::nat)"
proof -
  have "10 * (a div 10) + a mod 10 = a" and "10 * (b div 10) + b mod 10 = b"
    by (rule mult_div_mod_eq)+
  with lex_10 [of "a mod 10" "b mod 10" "a div 10" "b div 10"] show ?thesis
    by simp
qed

lemma two_digits_eq:
  "a div 10 = b div 10 \<and> a mod 10 = b mod 10 \<longleftrightarrow> a = (b::nat)"
  by (metis mult_div_mod_eq)

lemma hours_minutes:
  "(a div 60 < b div 60 \<or> a div 60 = b div 60 \<and> a mod 60 < b mod 60) \<longleftrightarrow> a < (b::nat)"
proof -
  have "60 * (a div 60) + a mod 60 = a" and "60 * (b div 60) + b mod 60 = b"
    by (rule mult_div_mod_eq)+
  with lex_60 [of "a mod 60" "b mod 60" "a div 60" "b div 60"] show ?thesis
    by simp
qed

lemma strftime_HM_less:
  assumes "m < 1440" and "n < 1440"
  shows "strftime_HM m < strftime_HM n \<longleftrightarrow> m < n"
proof -
  have b: "m div 60 div 10 < 10" "n div 60 div 10 < 10" "m div 60 mod 10 < 10"
    "n div 60 mod 10 < 10" "m mod 60 div 10 < 10" "n mod 60 div 10 < 10"
    "m mod 60 mod 10 < 10" "n mod 60 mod 10 < 10"
    using assms by simp_all
  have "strftime_HM m < strftime_HM n \<longleftrightarrow>
      (m div 60 div 10 < n div 60 div 10 \<or> m div 60 div 10 = n div 60 div 10 \<and>
        (m div 60 mod 10 < n div 60 mod 10 \<or> m div 60 mod 10 = n div 60 mod 10 \<and>
          (m mod 60 div 10 < n mod 60 div 10 \<or> m mod 60 div 10 = n mod 60 div 10 \<and>
             m mod 60 mod 10 < n mod 60 mod 10)))"
    unfolding strftime_HM_def
    by (simp only: Cons_less_Cons digit_less digit_eq b less_irrefl simp_thms Nil_less_Cons
          not_less_Nil)
  also have "\<dots> \<longleftrightarrow> (m div 60 < n div 60 \<or> m div 60 = n div 60 \<and> m mod 60 < n mod 60)"
    using two_digits [of "m div 60" "n div 60"] two_digits [of "m mod 60" "n mod 60"]
      two_digits_eq [of "m div 60" "n div 60"]
    by blast
  finally show ?thesis
    by (simp only: hours_minutes)
qed

lemma strftime_HM_le:
  assumes "m < 1440" and "n < 1440"
  shows "strftime_HM m \<le> strftime_HM n \<longleftrightarrow> m \<le> n"
  using strftime_HM_less [OF assms(2,1)] by (simp add: not_less [symmetric])

lemma strftime_HM_example: "strftime_HM 570 = ''09:30'' \<and> strftime_HM 1200 = ''20:00''"
  by (simp add: strftime_HM_def digit_def)

text \<open>The \<^verbatim>\<open>BETWEEN\<close> of the conflict query, on the strings the source compares.\<close>

lemma between_strings:
  assumes "x < 1440" and "lo < 1440" and "hi < 1440"
  shows "between x lo hi \<longleftrightarrow>
    strftime_HM lo \<le> strftime_HM x \<and> strftime_HM x \<le> strftime_HM hi"
  using assms by (simp add: between_def strftime_HM_le)

subsection \<open>The loops of the slot listing\<close>

lemma grid_points_empty: "\<not> t < e \<Longrightarrow> grid_points t e = {}"
  by (auto simp: grid_points_def)

lemma grid_points_unfold:
  assumes "t < e"
  shows "grid_points t e = insert t (grid_points (t + 15) e)"
proof (intro set_eqI iffI)
  fix x
  assume "x \<in> grid_points t e"
  then obtain k where x: "x < e" "x = t + 15 * k"
    by (auto simp: grid_points_def)
  show "x \<in> insert t (grid_points (t + 15) e)"
  proof (cases k)
    case 0
    with x show ?thesis by simp
  next
    case (Suc j)
    with x have "x = (t + 15) + 15 * j" by simp
    with x(1) show ?thesis
      unfolding grid_points_def by blast
  qed
next
  fix x
  assume "x \<in> insert t (grid_points (t + 15) e)"
  then consider "x = t" | j where "x < e" "x = (t + 15) + 15 * j"
    by (auto simp: grid_points_def)
  then show "x \<in> grid_points t e"
  proof cases
    case 1
    then have "x = t + 15 * 0" by simp
    with assms 1 show ?thesis
      unfolding grid_points_def by blast
  next
    case 2
    then have "x = t + 15 * Suc j" by simp
    with 2(1) show ?thesis
      unfolding grid_points_def by blast
  qed
qed

lemma check_slot_eq:
  "slot_end \<le> 1425 \<Longrightarrow>
     check_slot t slot_end B = Some (grid_points t slot_end \<inter> B = {})"
proof (induction "slot_end - t" arbitrary: t rule: less_induct)
  case less
  show ?case
  proof (cases "t < slot_end")
    case True
    then have step: "plus_minutes t 15 = t + 15"
      using less.prems by (simp add: plus_minutes_def)
    note split = grid_points_unfold [OF True]
    show ?thesis
    proof (cases "t \<in> B")
      case True
      with \<open>t < slot_end\<close> show ?thesis
        by (subst check_slot.simps) (simp add: split)
    next
      case False
      have "check_slot t slot_end B = check_slot (t + 15) slot_end B"
        using False \<open>t < slot_end\<close> step by (subst check_slot.simps) simp
      also have "\<dots> = Some (grid_points (t + 15) slot_end \<inter> B = {})"
        using \<open>t < slot_end\<close> less.prems by (intro less.hyps) simp_all
      finally show ?thesis
        using False by (simp add: split)
    qed
  next
    case False
    then show ?thesis
      by (subst check_slot.simps) (simp add: grid_points_empty)
  qed
qed


lemma generate_slots_eq:
  assumes "e + d < 1440" and "e + step < 1440" and "e \<le> 1425" and "0 < step"
  shows "generate_slots t e d step B acc =
    Some (acc @ filter (\<lambda>s. s + d \<le> e \<and> grid_points s (s + d) \<inter> B = {})
                  (candidate_times t e step))"
proof (induction "e + 1 - t" arbitrary: t acc rule: less_induct)
  case less
  show ?case
  proof (cases "t \<le> e")
    case True
    have pd: "plus_minutes t d = t + d" and ps: "plus_minutes t step = t + step"
      using True assms by (simp_all add: plus_minutes_def)
    have ct: "candidate_times t e step = t # candidate_times (t + step) e step"
      using True assms(4) by (subst candidate_times.simps) simp
    have ih: "generate_slots (t + step) e d step B acc' =
        Some (acc' @ filter (\<lambda>s. s + d \<le> e \<and> grid_points s (s + d) \<inter> B = {})
                  (candidate_times (t + step) e step))" for acc'
      using True assms(4) by (intro less.hyps) simp
    show ?thesis
    proof (cases "t + d \<le> e")
      case fits: True
      then have "t + d \<le> 1425"
        using assms(3) by simp
      then have cs: "check_slot t (t + d) B = Some (grid_points t (t + d) \<inter> B = {})"
        by (rule check_slot_eq)
      show ?thesis
        using True fits by (subst generate_slots.simps) (simp add: pd ps cs ih ct)
    next
      case False
      with True show ?thesis
        by (subst generate_slots.simps) (simp add: pd ps ih ct)
    qed
  next
    case False
    then have "candidate_times t e step = []"
      by (subst candidate_times.simps) simp
    with False show ?thesis
      by (subst generate_slots.simps) simp
  qed
qed

lemma candidate_times_nth:
  "0 < step \<Longrightarrow>
     candidate_times t e step = map (\<lambda>k. t + k * step) [0..<length (candidate_times t e step)]"
proof (induction t e step rule: candidate_times.induct)
  case (1 t e step)
  show ?case
  proof (cases "t \<le> e")
    case True
    then have ct: "candidate_times t e step = t # candidate_times (t + step) e step"
      using "1.prems" by (subst candidate_times.simps) simp
    have ih: "candidate_times (t + step) e step =
        map (\<lambda>k. t + step + k * step) [0..<length (candidate_times (t + step) e step)]"
      using "1.IH" True "1.prems" by simp
    have "map (\<lambda>k. t + k * step) [0..<Suc (length (candidate_times (t + step) e step))]
        = (t + 0 * step) # map (\<lambda>k. t + Suc k * step)
            [0..<length (candidate_times (t + step) e step)]"
      by (rule map_upt_Suc)
    also have "\<dots> = t # map (\<lambda>k. t + step + k * step)
            [0..<length (candidate_times (t + step) e step)]"
      by (simp add: add.assoc)
    also have "\<dots> = t # candidate_times (t + step) e step"
      using ih by simp
    finally have "map (\<lambda>k. t + k * step) [0..<Suc (length (candidate_times (t + step) e step))]
        = t # candidate_times (t + step) e step" .
    then show ?thesis
      by (simp add: ct del: upt_Suc)
  next
    case False
    then show ?thesis
      by (subst (1 2) candidate_times.simps) simp
  qed
qed

lemma candidate_times_length:
  "0 < step \<Longrightarrow> k < length (candidate_times t e step) \<longleftrightarrow> t + k * step \<le> e"
proof (induction t e step arbitrary: k rule: candidate_times.induct)
  case (1 t e step)
  show ?case
  proof (cases "t \<le> e")
    case True
    then have ct: "candidate_times t e step = t # candidate_times (t + step) e step"
      using "1.prems" by (subst candidate_times.simps) simp
    show ?thesis
    proof (cases k)
      case 0
      with True show ?thesis by (simp add: ct)
    next
      case (Suc j)
      have "j < length (candidate_times (t + step) e step) \<longleftrightarrow> t + step + j * step \<le> e"
        using "1.IH" True "1.prems" by simp
      then show ?thesis
        by (simp add: ct Suc add.assoc)
    qed
  next
    case False
    then have "candidate_times t e step = []"
      by (subst candidate_times.simps) simp
    moreover have "\<not> t + k * step \<le> e"
      using False by simp
    ultimately show ?thesis by simp
  qed
qed

lemma candidate_times_fitting:
  "0 < step \<Longrightarrow> filter (\<lambda>s. s + d \<le> e) (candidate_times t e step) =
     (if d \<le> e then candidate_times t (e - d) step else [])"
proof (induction t e step rule: candidate_times.induct)
  case (1 t e step)
  show ?case
  proof (cases "t \<le> e")
    case True
    then have ct: "candidate_times t e step = t # candidate_times (t + step) e step"
      using "1.prems" by (subst candidate_times.simps) simp
    have ih: "filter (\<lambda>s. s + d \<le> e) (candidate_times (t + step) e step) =
       (if d \<le> e then candidate_times (t + step) (e - d) step else [])"
      using "1.IH" True "1.prems" by simp
    show ?thesis
    proof (cases "t + d \<le> e")
      case fits: True
      then have "candidate_times t (e - d) step = t # candidate_times (t + step) (e - d) step"
        using "1.prems" by (subst candidate_times.simps) simp
      with fits show ?thesis
        by (simp add: ct ih)
    next
      case False
      then have "\<not> t \<le> e - d" and "\<not> t + step \<le> e - d" if "d \<le> e"
        using that by arith+
      then have a: "d \<le> e \<Longrightarrow> candidate_times t (e - d) step = []"
        and b: "d \<le> e \<Longrightarrow> candidate_times (t + step) (e - d) step = []"
        by (subst candidate_times.simps, simp)+
      from False a b show ?thesis
        by (simp add: ct ih)
    qed
  next
    case False
    then have "candidate_times t e step = []"
      by (subst candidate_times.simps) simp
    moreover from False have "\<not> t \<le> e - d"
      by arith
    then have "candidate_times t (e - d) step = []"
      by (subst candidate_times.simps) simp
    ultimately show ?thesis by simp
  qed
qed

lemma candidate_times_set:
  assumes "0 < step"
  shows "s \<in> set (candidate_times t e step) \<longleftrightarrow> (\<exists>k. s = t + k * step) \<and> s \<le> e"
proof -
  let ?n = "length (candidate_times t e step)"
  have "set (candidate_times t e step) = (\<lambda>k. t + k * step) ` {0..<?n}"
    using candidate_times_nth [OF assms, of t e] by (metis set_map set_upt)
  then have "s \<in> set (candidate_times t e step) \<longleftrightarrow> (\<exists>k<?n. s = t + k * step)"
    by auto
  also have "\<dots> \<longleftrightarrow> (\<exists>k. s = t + k * step \<and> t + k * step \<le> e)"
    using candidate_times_length [OF assms, of _ t e] by auto
  finally show ?thesis by auto
qed

lemma candidate_times_sorted:
  assumes "0 < step"
  shows "sorted_wrt (<) (candidate_times t e step)"
proof -
  have "sorted_wrt (<) (map (\<lambda>k. t + k * step) [0..<n])" for n
    using assms by (simp add: sorted_wrt_map sorted_wrt_iff_nth_less)
  then show ?thesis
    using candidate_times_nth [OF assms, of t e] by metis
qed

section \<open>Conflict detection on admission\<close>

text \<open>
  Claim C1 at a concrete input: the ledger holds the confirmed booking 10:00 to 11:00 that
  the route wrote for a first request, and a second request asks for 09:30 of the same
  one-hour service on the same day. The requested interval 09:30 to 10:30 overlaps the
  booking, yet the request is not rejected as a conflict: it is admitted with status
  confirmed. The conflict query compares the stored datetime with a bare date and so
  selects no row the route has written.
\<close>

theorem overlapping_request_admitted:
  "map (\<lambda>b. (appointment_date b, interval b, status b)) (bookings ledger_after_admit)
     = [(DateTime monday 600, (600, 660), ''confirmed'')]
   \<and> overlap (570, 570 + s_duration swedish_massage) (600, 660)
   \<and> (case create_booking settings world ledger_after_admit (request 570) of
         Inl e \<Rightarrow> False
       | Inr (db', r) \<Rightarrow>
           map interval (bookings db') = [(600, 660), (570, 630)]
           \<and> r_status r = ''confirmed'')"
  by (simp add: route_defs fixture_defs interval_def overlap_def)

text \<open>
  Claim C2: on a ledger whose rows hold datetimes, as every row the route writes does, a
  request for an active service that lies in the future, starts no earlier than the
  opening time, ends no later than the closing time, and whose interval abuts the interval
  of an existing booking of that day (it ends where the booking starts, or starts where
  the booking ends) is admitted: a confirmed booking for the requested interval is
  appended.
\<close>

theorem abutting_request_admitted:
  assumes "list_all holds_datetime (bookings db)"
    and "active_service db (rq_service_name rq) = Some service"
    and "rq_appointment rq = Some (d, t)"
    and "\<not> datetime_le (d, t) (now w)"
    and "business_hours st (day_of_week d) = Some hours"
    and "h_open hours \<le> t" and "t + s_duration service \<le> h_close hours"
    and "b \<in> set (bookings db)"
    and "appointment_date b = DateTime d (appointment_time b)"
    and "t + s_duration service = appointment_time b
         \<or> t = appointment_time b + service_duration b"
  shows "\<exists>db' r b'. create_booking st w db rq = Inr (db', r)
           \<and> bookings db' = bookings db @ [b']
           \<and> appointment_date b' = DateTime d t
           \<and> interval b' = (t, t + s_duration service)
           \<and> status b' = ''confirmed''"
proof -
  have "\<not> list_ex (conflicting d t (plus_minutes t (s_duration service))) (bookings db)"
    using assms(1) by (rule no_conflict_found)
  moreover have "t \<le> h_close hours"
    using assms(7) by simp
  ultimately show ?thesis
    using assms(2-6) by (cases "calendar_event w") (simp_all add: create_booking_def interval_def)
qed

text \<open>The theorem above at the ledger holding the route's booking 10:00 to 11:00 and a
  request for 09:00 of one hour, which ends where that booking starts.\<close>

theorem abutting_request_admitted_witness:
  "list_all holds_datetime (bookings ledger_after_admit)
   \<and> map (\<lambda>b. (appointment_date b, interval b)) (bookings ledger_after_admit)
       = [(DateTime monday 600, (600, 660))]
   \<and> 540 + s_duration swedish_massage = 600
   \<and> (\<exists>db' r b'. create_booking settings world ledger_after_admit (request 540) = Inr (db', r)
        \<and> bookings db' = bookings ledger_after_admit @ [b']
        \<and> appointment_date b' = DateTime monday 540
        \<and> interval b' = (540, 600)
        \<and> status b' = ''confirmed'')"
proof -
  let ?b = "hd (bookings ledger_after_admit)"
  have rows: "list_all holds_datetime (bookings ledger_after_admit)"
    and l: "map (\<lambda>b. (appointment_date b, interval b)) (bookings ledger_after_admit)
       = [(DateTime monday 600, (600, 660))]"
    and e: "540 + s_duration swedish_massage = 600"
    by (simp_all add: route_defs fixture_defs holds_datetime_def interval_def)
  have "\<exists>db' r b'. create_booking settings world ledger_after_admit (request 540) = Inr (db', r)
        \<and> bookings db' = bookings ledger_after_admit @ [b']
        \<and> appointment_date b' = DateTime monday 540
        \<and> interval b' = (540, 540 + s_duration swedish_massage)
        \<and> status b' = ''confirmed''"
    by (rule abutting_request_admitted
          [where service = swedish_massage and hours = "\<lparr>h_open = 540, h_close = 1200\<rparr>"
             and b = ?b])
       (simp_all add: route_defs fixture_defs holds_datetime_def)
  then show ?thesis
    using rows l by (simp add: swedish_massage_def)
qed

text \<open>A request that starts where the booking ends is admitted as well.\<close>

lemma request_after_booking_accepted:
  "map interval (bookings (create_bookings settings ledger_after_admit [(world, request 660)]))
     = [(600, 660), (660, 720)]"
  by (simp add: route_defs fixture_defs interval_def)

section \<open>Opening hours on admission\<close>

text \<open>
  Claim C3 at a concrete input: Monday is open 09:00 to 20:00, the service lasts 60
  minutes, the request is for 19:30 and would end at 20:30. It is not rejected: the
  booking is created with status confirmed. The route compares the start time alone with
  the opening and closing times.
\<close>

theorem request_ending_after_close_accepted:
  "business_hours settings (day_of_week monday) = Some \<lparr>h_open = 540, h_close = 1200\<rparr>
   \<and> 1170 + s_duration swedish_massage = 1230
   \<and> map interval (bookings (create_bookings settings empty_ledger [(world, request 1170)]))
       = [(1170, 1230)]
   \<and> (case create_booking settings world empty_ledger (request 1170) of
         Inl e \<Rightarrow> False
       | Inr (db', r) \<Rightarrow> r_status r = ''confirmed'')"
  by (simp add: route_defs fixture_defs interval_def)

text \<open>What the route does test: given an active service and a start in the future, the
  request is rejected for the opening hours exactly when the weekday has no entry or the
  start time is before the opening or after the closing time.\<close>

lemma create_booking_outside_hours_iff:
  assumes "active_service db (rq_service_name rq) = Some service"
    and "rq_appointment rq = Some (d, t)"
    and "\<not> datetime_le (d, t) (now w)"
  shows "create_booking st w db rq \<in> {Inl Closed_on_day, Inl Outside_open_hours} \<longleftrightarrow>
    (case business_hours st (day_of_week d) of
       None \<Rightarrow> True
     | Some hours \<Rightarrow> t < h_open hours \<or> h_close hours < t)"
  using assms by (auto simp: create_booking_def Let_def split: option.splits)

section \<open>Sequential admissions\<close>

text \<open>
  Claim C6 at a concrete input: starting from an empty ledger, a request for 10:00 and then
  a request for 10:30 of the same one-hour service on the same day are both admitted. The
  ledger then holds two confirmed bookings of that day whose intervals overlap.
\<close>

theorem overlapping_requests_both_admitted:
  "map (\<lambda>b. (appointment_date b, interval b, status b))
     (bookings (create_bookings settings empty_ledger
        [(world, request 600), (world, request 630)]))
     = [(DateTime monday 600, (600, 660), ''confirmed''),
        (DateTime monday 630, (630, 690), ''confirmed'')]
   \<and> overlap (600, 660) (630, 690)"
  by (simp add: route_defs fixture_defs interval_def overlap_def)

text \<open>The identical request, submitted a second time, is admitted a second time.\<close>

lemma identical_request_admitted_twice:
  "map (\<lambda>b. (appointment_date b, interval b, status b))
     (bookings (create_bookings settings empty_ledger
        [(world, request 600), (world, request 600)]))
     = [(DateTime monday 600, (600, 660), ''confirmed''),
        (DateTime monday 600, (600, 660), ''confirmed'')]"
  by (simp add: route_defs fixture_defs interval_def)

section \<open>Slot listing\<close>

text \<open>
  Claim C5, as the code has it. For an active service, a date on an open weekday and a
  ledger with no bookings, when neither the closing time plus the service's duration nor
  the closing time plus the step reaches midnight, \<open>get_available_slots\<close> returns a list
  that is ascending without duplicates, whose slots all lie in
  \<open>[open, close - duration]\<close>, that starts at the opening time and advances by
  \<open>buffer_time + 15\<close> minutes, and that stops only when the next slot would end after the
  closing time.
\<close>

theorem slots_without_bookings:
  assumes "active_service db name = Some service"
    and "business_hours st (day_of_week d) = Some hours"
    and "bookings db = []"
    and "h_close hours + s_duration service < 1440"
    and "h_close hours + buffer_time st + 15 < 1440"
  shows "\<exists>slots. get_available_slots st db (Some d) name = Some (Inr slots)
     \<and> sorted slots \<and> distinct slots
     \<and> (\<forall>s\<in>set slots. h_open hours \<le> s \<and> s + s_duration service \<le> h_close hours)
     \<and> slots = map (\<lambda>k. h_open hours + k * (buffer_time st + 15)) [0..<length slots]
     \<and> (\<forall>k. k < length slots
            \<longleftrightarrow> h_open hours + k * (buffer_time st + 15) + s_duration service \<le> h_close hours)"
proof -
  let ?step = "buffer_time st + 15"
  let ?e = "h_close hours"
  let ?dur = "s_duration service"
  let ?f = "\<lambda>k. h_open hours + k * ?step"
  define slots where
    "slots = (if ?dur \<le> ?e then candidate_times (h_open hours) (?e - ?dur) ?step else [])"
  have step: "0 < ?step"
    by simp
  have "generate_slots (h_open hours) ?e ?dur ?step {} [] =
      Some ([] @ filter (\<lambda>s. s + ?dur \<le> ?e \<and> grid_points s (s + ?dur) \<inter> {} = {})
                  (candidate_times (h_open hours) ?e ?step))"
    using assms(4,5) by (intro generate_slots_eq) simp_all
  then have gen: "generate_slots (h_open hours) ?e ?dur ?step {} [] = Some slots"
    by (simp add: slots_def candidate_times_fitting [OF step])
  have res: "get_available_slots st db (Some d) name = Some (Inr slots)"
    using assms(1-3) gen by (simp add: get_available_slots_def)
  have nth: "slots = map ?f [0..<length slots]"
  proof (cases "?dur \<le> ?e")
    case True
    then have eq: "slots = candidate_times (h_open hours) (?e - ?dur) ?step"
      by (simp add: slots_def)
    show ?thesis
      unfolding eq by (rule candidate_times_nth [OF step])
  next
    case False
    then show ?thesis by (simp add: slots_def)
  qed
  have len: "k < length slots \<longleftrightarrow> ?f k + ?dur \<le> ?e" for k
    using candidate_times_length [OF step, of k "h_open hours" "?e - ?dur"]
    by (auto simp: slots_def)
  have "sorted_wrt (<) slots"
    using candidate_times_sorted [OF step] by (simp add: slots_def)
  then have sorted: "sorted slots" and distinct: "distinct slots"
    by (simp_all add: strict_sorted_iff)
  have bounds: "\<forall>s\<in>set slots. h_open hours \<le> s \<and> s + ?dur \<le> ?e"
  proof
    fix s
    assume "s \<in> set slots"
    then have "?dur \<le> ?e" and "s \<in> set (candidate_times (h_open hours) (?e - ?dur) ?step)"
      by (simp_all add: slots_def split: if_splits)
    then have "(\<exists>k. s = ?f k) \<and> s \<le> ?e - ?dur"
      by (simp add: candidate_times_set [OF step])
    with \<open>?dur \<le> ?e\<close> show "h_open hours \<le> s \<and> s + ?dur \<le> ?e"
      by auto
  qed
  have all_len: "\<forall>k. k < length slots \<longleftrightarrow> ?f k + ?dur \<le> ?e"
    using len by blast
  show ?thesis
    by (intro exI [of _ slots] conjI) (fact res sorted distinct bounds nth all_len)+
qed

text \<open>The theorem above for the 60-minute service on a Monday: 21 slots from 09:00, 30
  minutes apart.\<close>

theorem slots_without_bookings_witness:
  "active_service empty_ledger ''Swedish Massage'' = Some swedish_massage
   \<and> business_hours settings (day_of_week monday) = Some \<lparr>h_open = 540, h_close = 1200\<rparr>
   \<and> bookings empty_ledger = [] \<and> buffer_time settings = 15
   \<and> (\<exists>slots. get_available_slots settings empty_ledger (Some monday) ''Swedish Massage''
          = Some (Inr slots)
        \<and> sorted slots \<and> distinct slots
        \<and> slots = map (\<lambda>k. 540 + k * 30) [0..<length slots] \<and> length slots = 21)"
proof -
  have a: "active_service empty_ledger ''Swedish Massage'' = Some swedish_massage"
    and h: "business_hours settings (day_of_week monday) = Some \<lparr>h_open = 540, h_close = 1200\<rparr>"
    and e: "bookings empty_ledger = []" and b: "buffer_time settings = 15"
    by (simp_all add: listing_defs fixture_defs)
  have "h_close \<lparr>h_open = 540, h_close = 1200\<rparr> + s_duration swedish_massage < 1440"
    and "h_close \<lparr>h_open = 540, h_close = 1200\<rparr> + buffer_time settings + 15 < 1440"
    by (simp_all add: fixture_defs)
  from slots_without_bookings [OF a h e this]
  have "\<exists>slots. get_available_slots settings empty_ledger (Some monday) ''Swedish Massage''
        = Some (Inr slots)
      \<and> sorted slots \<and> distinct slots
      \<and> (\<forall>s\<in>set slots. 540 \<le> s \<and> s \<le> 1140)
      \<and> slots = map (\<lambda>k. 540 + k * 30) [0..<length slots]
      \<and> (\<forall>k. k < length slots \<longleftrightarrow> k \<le> 20)"
    by (simp add: b swedish_massage_def)
  then obtain slots where s:
    "get_available_slots settings empty_ledger (Some monday) ''Swedish Massage'' = Some (Inr slots)"
    "sorted slots" "distinct slots"
    "slots = map (\<lambda>k. 540 + k * 30) [0..<length slots]"
    and l: "\<forall>k. k < length slots \<longleftrightarrow> k \<le> 20"
    by blast
  have "20 < length slots" and "\<not> 21 < length slots"
    using l by simp_all
  then have len: "length slots = 21"
    by simp
  show ?thesis
    by (intro conjI exI [of _ slots]) (fact a h e b s(1-4) len)+
qed

text \<open>
  Claim C5 as stated has the slots spaced by the granularity of 15 minutes. With the
  default \<^verbatim>\<open>buffer_time\<close> of 15 the listing for a Monday and a 60-minute service is
  09:00, 09:30, ..., 19:00: consecutive slots are 30 minutes apart.
\<close>

theorem slots_spaced_by_thirty_minutes:
  "get_available_slots settings empty_ledger (Some monday) ''Swedish Massage''
     = Some (Inr [540, 570, 600, 630, 660, 690, 720, 750, 780, 810, 840, 870, 900, 930, 960,
                  990, 1020, 1050, 1080, 1110, 1140])
   \<and> \<not> (\<exists>slots. get_available_slots settings empty_ledger (Some monday) ''Swedish Massage''
            = Some (Inr slots)
          \<and> (\<forall>i. Suc i < length slots \<longrightarrow> slots ! Suc i = slots ! i + 15))"
proof -
  have r: "get_available_slots settings empty_ledger (Some monday) ''Swedish Massage''
     = Some (Inr [540, 570, 600, 630, 660, 690, 720, 750, 780, 810, 840, 870, 900, 930, 960,
                  990, 1020, 1050, 1080, 1110, 1140])"
    by (simp add: listing_defs fixture_defs loop_simps)
  have "\<not> (\<forall>i. Suc i < length slots \<longrightarrow> slots ! Suc i = slots ! i + 15)"
    if "slots = [540, 570, 600, 630, 660, 690, 720, 750, 780, 810, 840, 870, 900, 930, 960,
                  990, 1020, 1050, 1080, 1110, 1140::nat]" for slots
  proof
    assume "\<forall>i. Suc i < length slots \<longrightarrow> slots ! Suc i = slots ! i + 15"
    then have "Suc 0 < length slots \<longrightarrow> slots ! Suc 0 = slots ! 0 + 15" ..
    with that show False by simp
  qed
  with r show ?thesis
    by auto
qed

text \<open>
  Claim C4 at a concrete input: the ledger holds the confirmed booking 10:00 to 11:00 that
  the route wrote, and the slots of the same one-hour service are listed for that Monday.
  The candidates 09:30, 10:00 and 10:30 intersect the booking and are listed all the
  same: the listing is the one of a day without bookings, because the query for the
  day's bookings compares the stored datetime with a bare date and returns no row.
\<close>

theorem booked_slots_still_listed:
  "map (\<lambda>b. (appointment_date b, interval b, status b)) (bookings ledger_after_admit)
     = [(DateTime monday 600, (600, 660), ''confirmed'')]
   \<and> overlap (570, 570 + s_duration swedish_massage) (600, 660)
   \<and> overlap (600, 600 + s_duration swedish_massage) (600, 660)
   \<and> overlap (630, 630 + s_duration swedish_massage) (600, 660)
   \<and> get_available_slots settings ledger_after_admit (Some monday) ''Swedish Massage''
      = Some (Inr [540, 570, 600, 630, 660, 690, 720, 750, 780, 810, 840, 870, 900, 930, 960,
                   990, 1020, 1050, 1080, 1110, 1140])"
  by (simp add: listing_defs route_defs fixture_defs loop_simps overlap_def interval_def)

text \<open>So on every ledger whose rows hold datetimes the listing reads no booking at all.\<close>

lemma listing_reads_no_route_booking:
  assumes "list_all holds_datetime (bookings db)"
  shows "get_available_slots st db date name
    = get_available_slots st (db\<lparr>bookings := []\<rparr>) date name"
  using assms
  by (simp add: get_available_slots_def active_service_def no_booking_selected
        split: option.splits)

section \<open>The confirmation code\<close>

text \<open>
  Claim C7: every successful \<open>create_booking\<close> appends one booking with status
  \<^verbatim>\<open>confirmed\<close>, and its response reports that booking's id, the status confirmed and a
  confirmation code made in this call from the fresh uuid4 string (its first eight
  characters, upper-cased): eight alphanumeric characters.
\<close>

theorem create_booking_confirmed_with_code:
  assumes "uuid_prefix_ok (uuid4 w)"
    and "create_booking st w db rq = Inr (db', r)"
  shows "\<exists>b. bookings db' = bookings db @ [b] \<and> status b = ''confirmed''
           \<and> r_booking_id r = b_id b \<and> r_status r = ''confirmed''
           \<and> r_confirmation_code r = upper (take 8 (uuid4 w))
           \<and> length (r_confirmation_code r) = 8
           \<and> list_all alphanumeric (r_confirmation_code r)"
proof -
  have len: "length (upper (take 8 (uuid4 w))) = 8"
    using assms(1) by (simp add: uuid_prefix_ok_def upper_def)
  have alnum: "list_all alphanumeric (upper (take 8 (uuid4 w)))"
    using assms(1) by (simp add: uuid_prefix_ok_def code_alphanumeric)
  from assms(2) show ?thesis
    by (rule create_booking_Inr) (simp add: len alnum)
qed

text \<open>The theorem above at a request for 10:00 on an empty ledger.\<close>

theorem create_booking_confirmed_with_code_witness:
  "uuid_prefix_ok (uuid4 world)
   \<and> (\<exists>db' r. create_booking settings world empty_ledger (request 600) = Inr (db', r)
        \<and> (\<exists>b. bookings db' = bookings empty_ledger @ [b] \<and> status b = ''confirmed''
           \<and> r_booking_id r = b_id b \<and> r_status r = ''confirmed''
           \<and> r_confirmation_code r = ''3F2B8C1E''))"
proof -
  have u: "uuid_prefix_ok (uuid4 world)"
    by (simp add: uuid_prefix_ok_def hex_digit_def world_def)
  obtain db' r where c: "create_booking settings world empty_ledger (request 600) = Inr (db', r)"
    by (simp add: route_defs fixture_defs)
  have "upper (take 8 (uuid4 world)) = ''3F2B8C1E''"
    by (simp add: world_def upper_def upper_char_def)
  with create_booking_confirmed_with_code [OF u c] u c show ?thesis
    by auto
qed

text \<open>
  Claim C10: the confirmation code is not stored. The \<open>Booking\<close> row has no field for it,
  so a successful \<open>create_booking\<close> leaves the same database whatever the uuid4 string
  was (only the response's code differs), and \<open>get_booking\<close> on the new booking's id
  returns the projection of the inserted row, which carries no confirmation code.
\<close>

theorem confirmation_code_not_stored:
  assumes "create_booking st w db rq = Inr (db', r)"
  shows "create_booking st (w\<lparr>uuid4 := u\<rparr>) db rq
           = Inr (db', r\<lparr>r_confirmation_code := upper (take 8 u)\<rparr>)
         \<and> (\<exists>b. bookings db' = bookings db @ [b]
              \<and> get_booking db' (r_booking_id r) =
                  Inr \<lparr>v_id = b_id b, v_client_name = client_name b,
                    v_client_email = client_email b, v_service_name = service_name b,
                    v_appointment_date = appointment_date b,
                    v_appointment_time = appointment_time b,
                    v_total_price = total_price b, v_status = status b,
                    v_created_at = created_at b\<rparr>)"
proof -
  from assms show ?thesis
  proof (rule create_booking_Inr)
    fix service dt hours
    assume a: "active_service db (rq_service_name rq) = Some service"
      "rq_appointment rq = Some dt" "\<not> datetime_le dt (now w)"
      "business_hours st (day_of_week (fst dt)) = Some hours"
      "h_open hours \<le> snd dt" "snd dt \<le> h_close hours"
      "\<not> list_ex (conflicting (fst dt) (snd dt) (plus_minutes (snd dt) (s_duration service)))
           (bookings db)"
    and db': "db' = db\<lparr>bookings := bookings db @
       [\<lparr>b_id = next_id (bookings db),
         client_name = rq_client_name rq,
         client_email = rq_client_email rq,
         client_phone = rq_client_phone rq,
         service_name = s_name service,
         service_duration = s_duration service,
         appointment_date = DateTime (fst dt) (snd dt),
         appointment_time = snd dt,
         total_price = s_price service,
         status = ''confirmed'',
         special_requests = rq_special_requests rq,
         google_calendar_event_id = calendar_event w,
         created_at = utcnow w,
         updated_at = (case calendar_event w of None \<Rightarrow> utcnow w | Some e \<Rightarrow> utcnow_sync w)\<rparr>]\<rparr>"
    and r: "r = \<lparr>r_booking_id = next_id (bookings db),
          r_confirmation_code = upper (take 8 (uuid4 w)),
          r_appointment_datetime = dt,
          r_service_name = s_name service,
          r_total_price = s_price service,
          r_status = ''confirmed''\<rparr>"
    have 1: "create_booking st (w\<lparr>uuid4 := u\<rparr>) db rq
           = Inr (db', r\<lparr>r_confirmation_code := upper (take 8 u)\<rparr>)"
      using a db' r by (auto simp: create_booking_def Let_def split: option.splits)
    have 2: "get_booking db' (r_booking_id r) =
        Inr \<lparr>v_id = next_id (bookings db), v_client_name = rq_client_name rq,
          v_client_email = rq_client_email rq, v_service_name = s_name service,
          v_appointment_date = DateTime (fst dt) (snd dt), v_appointment_time = snd dt,
          v_total_price = s_price service, v_status = ''confirmed'',
          v_created_at = utcnow w\<rparr>"
      by (simp add: get_booking_def db' r find_inserted)
    show ?thesis
      using 1 2 by (simp add: db')
  qed
qed

text \<open>The theorem above at a request for 10:00 on an empty ledger, with a second uuid4 string.\<close>

theorem confirmation_code_not_stored_witness:
  "\<exists>db' r. create_booking settings world empty_ledger (request 600) = Inr (db', r)
     \<and> create_booking settings (world\<lparr>uuid4 := ''00000000-0000-4000-8000-000000000000''\<rparr>)
          empty_ledger (request 600) = Inr (db', r\<lparr>r_confirmation_code := ''00000000''\<rparr>)
     \<and> r_confirmation_code r = ''3F2B8C1E''
     \<and> map_sum id v_status (get_booking db' (r_booking_id r)) = Inr ''confirmed''"
proof -
  obtain db' r where c: "create_booking settings world empty_ledger (request 600) = Inr (db', r)"
    by (simp add: route_defs fixture_defs)
  have code: "r_confirmation_code r = ''3F2B8C1E''"
    using c by (auto simp: route_defs fixture_defs)
  have up: "upper (take 8 ''00000000-0000-4000-8000-000000000000'') = ''00000000''"
    by (simp add: upper_def upper_char_def)
  from confirmation_code_not_stored [OF c, of "''00000000-0000-4000-8000-000000000000''"]
  obtain b where
    "create_booking settings (world\<lparr>uuid4 := ''00000000-0000-4000-8000-000000000000''\<rparr>)
          empty_ledger (request 600) = Inr (db', r\<lparr>r_confirmation_code := ''00000000''\<rparr>)"
    and "bookings db' = bookings empty_ledger @ [b]"
    and g: "get_booking db' (r_booking_id r) =
                  Inr \<lparr>v_id = b_id b, v_client_name = client_name b,
                    v_client_email = client_email b, v_service_name = service_name b,
                    v_appointment_date = appointment_date b,
                    v_appointment_time = appointment_time b,
                    v_total_price = total_price b, v_status = status b,
                    v_created_at = created_at b\<rparr>"
    unfolding up by blast
  moreover have "status b = ''confirmed''"
    using c \<open>bookings db' = bookings empty_ledger @ [b]\<close>
    by (auto simp: route_defs fixture_defs)
  ultimately show ?thesis
    using c code by auto
qed

end
